theory Spec2Isabelle
  imports Main "HOL-Library.AList" "HOL-Library.Multiset"
begin

section \<open>Data model\<close>

text \<open>
  The evaluator of \<^verbatim>\<open>createAccessControl.tsx\<close> works on attribute maps
  (\<^verbatim>\<open>Record<string, any>\<close>), statements and policies. Attribute values are the
  primitive values of the language. Finite numbers are compared by their numeric value, so
  integers stand for them; \<^verbatim>\<open>NaN\<close> is kept apart because strict equality treats it
  specially.
\<close>

datatype jsval = JUndefined | JNull | JBool bool | JNum int | JNaN | JStr string

text \<open>The operator \<^verbatim>\<open>===\<close> on primitive values: equal values of the same type,
  except that \<^verbatim>\<open>NaN\<close> is equal to nothing, itself included.\<close>

definition strict_eq :: "jsval \<Rightarrow> jsval \<Rightarrow> bool" where
  "strict_eq x y = (x = y \<and> x \<noteq> JNaN)"

text \<open>
  An attribute map is a plain object, written as an association list; the object it stands
  for holds, for each key, the first pair with that key. \<^verbatim>\<open>Object.entries\<close> lists each
  own key once with its value.
\<close>

type_synonym attrs = "(string \<times> jsval) list"

definition object_entries :: "attrs \<Rightarrow> (string \<times> jsval) list" where
  "object_entries ob = AList.clearjunk ob"

text \<open>
  Reading a property, \<^verbatim>\<open>obj[key]\<close>: an own key gives its value. For a key the object
  does not have, the read goes on to \<^verbatim>\<open>Object.prototype\<close>: under one of its standard
  member names it finds a built-in function or object, under any other name nothing, and
  the result is \<^verbatim>\<open>undefined\<close>.
\<close>

definition object_prototype_keys :: "string list" where
  "object_prototype_keys =
     [''constructor'', ''hasOwnProperty'', ''isPrototypeOf'', ''propertyIsEnumerable'',
      ''toLocaleString'', ''toString'', ''valueOf'', ''__proto__'',
      ''__defineGetter__'', ''__defineSetter__'', ''__lookupGetter__'', ''__lookupSetter__'']"

datatype propval = Primitive jsval | Inherited string

definition obj_get :: "attrs \<Rightarrow> string \<Rightarrow> propval" where
  "obj_get ob k =
     (case map_of ob k of
        Some v \<Rightarrow> Primitive v
      | None \<Rightarrow> if k \<in> set object_prototype_keys then Inherited k else Primitive JUndefined)"

text \<open>\<^verbatim>\<open>===\<close> between the result of a read and a primitive value: a built-in function
  or object is equal to no primitive value.\<close>

definition read_strict_eq :: "propval \<Rightarrow> jsval \<Rightarrow> bool" where
  "read_strict_eq x y = (case x of Primitive w \<Rightarrow> strict_eq w y | Inherited k \<Rightarrow> False)"

datatype effect = Allow | Deny

text \<open>A statement of a policy; \<open>conditions\<close> is optional in the source.\<close>

record statement =
  resource :: string
  actions :: "string list"
  effect :: effect
  conditions :: "attrs list option"

type_synonym policy = "statement list"

text \<open>The optional third argument of \<^verbatim>\<open>can\<close>: absent, one attribute map, or an array
  of attribute maps.\<close>

datatype context_input = NoContext | OneContext attrs | ManyContexts "attrs list"

section \<open>The evaluator\<close>

text \<open>\<^verbatim>\<open>Array.isArray(conditions) ? conditions : conditions ? [conditions] : []\<close>\<close>

fun normalize_input :: "context_input \<Rightarrow> attrs list" where
  "normalize_input (ManyContexts cs) = cs"
| "normalize_input (OneContext c) = [c]"
| "normalize_input NoContext = []"

text \<open>\<^verbatim>\<open>stmt.actions.includes("*") || stmt.actions.includes(action)\<close>\<close>

definition actionMatches :: "statement \<Rightarrow> string \<Rightarrow> bool" where
  "actionMatches stmt action = (''*'' \<in> set (actions stmt) \<or> action \<in> set (actions stmt))"

text \<open>\<^verbatim>\<open>Object.entries(policyCondition).every(([key, value]) => inputCondition[key] === value)\<close>\<close>

definition pairMatches :: "attrs \<Rightarrow> attrs \<Rightarrow> bool" where
  "pairMatches policyCondition inputCondition =
     list_all (\<lambda>(key, val). read_strict_eq (obj_get inputCondition key) val)
       (object_entries policyCondition)"

text \<open>\<^verbatim>\<open>policyConditions.some(pc => inputConditions.some(ic => ...))\<close>\<close>

definition anyMatch :: "attrs list \<Rightarrow> attrs list \<Rightarrow> bool" where
  "anyMatch policyConditions inputConditions =
     list_ex (\<lambda>policyCondition. list_ex (\<lambda>inputCondition.
        pairMatches policyCondition inputCondition) inputConditions) policyConditions"

text \<open>The value of \<^verbatim>\<open>conditionMatches\<close> at the end of one loop iteration, with
  \<^verbatim>\<open>policyConditions = stmt.conditions || []\<close>.\<close>

definition conditionMatches :: "statement \<Rightarrow> attrs list \<Rightarrow> bool" where
  "conditionMatches stmt inputConditions =
     (let policyConditions = (case conditions stmt of None \<Rightarrow> [] | Some cs \<Rightarrow> cs)
      in if length policyConditions > 0
         then (if length inputConditions = 0 then False
               else anyMatch policyConditions inputConditions)
         else True)"

text \<open>The \<^verbatim>\<open>for\<close> loop of \<^verbatim>\<open>can\<close> over the relevant statements; the last argument is
  the variable \<^verbatim>\<open>isAllowed\<close>. A satisfied deny statement returns at once.\<close>

fun can_loop :: "statement list \<Rightarrow> string \<Rightarrow> attrs list \<Rightarrow> bool \<Rightarrow> bool" where
  "can_loop [] action inputConditions isAllowed = isAllowed"
| "can_loop (stmt # rest) action inputConditions isAllowed =
     (if \<not> actionMatches stmt action then can_loop rest action inputConditions isAllowed
      else if \<not> conditionMatches stmt inputConditions
        then can_loop rest action inputConditions isAllowed
      else if effect stmt = Deny then False
      else can_loop rest action inputConditions
             (if effect stmt = Allow then True else isAllowed))"

definition relevantStatements :: "policy \<Rightarrow> string \<Rightarrow> statement list" where
  "relevantStatements accessControlPolicy res =
     filter (\<lambda>stmt. resource stmt = res) accessControlPolicy"

definition can :: "policy \<Rightarrow> string \<Rightarrow> string \<Rightarrow> context_input \<Rightarrow> bool" where
  "can accessControlPolicy res action conds =
     can_loop (relevantStatements accessControlPolicy res) action (normalize_input conds) False"

text \<open>\<^verbatim>\<open>actions.every(action => can(resource, action, conditions))\<close>\<close>

definition canAll :: "policy \<Rightarrow> string \<Rightarrow> string list \<Rightarrow> context_input \<Rightarrow> bool" where
  "canAll accessControlPolicy res acts conds =
     list_all (\<lambda>action. can accessControlPolicy res action conds) acts"

text \<open>\<^verbatim>\<open>actions.some(action => can(resource, action, conditions))\<close>\<close>

definition canAny :: "policy \<Rightarrow> string \<Rightarrow> string list \<Rightarrow> context_input \<Rightarrow> bool" where
  "canAny accessControlPolicy res acts conds =
     list_ex (\<lambda>action. can accessControlPolicy res action conds) acts"

text \<open>A statement is satisfied by a query when the loop reaches its effect.\<close>

definition satisfied :: "statement \<Rightarrow> string \<Rightarrow> attrs list \<Rightarrow> bool" where
  "satisfied stmt action inputConditions =
     (actionMatches stmt action \<and> conditionMatches stmt inputConditions)"

section \<open>Notions used to state the properties\<close>

text \<open>
  The reading of condition matching in the specification, kept apart from the source's
  \<open>pairMatches\<close> so that the two can be compared: every key of the condition-set is
  present in the candidate map, with a strictly equal value.
\<close>

definition spec_pairMatches :: "attrs \<Rightarrow> attrs \<Rightarrow> bool" where
  "spec_pairMatches conditionSet candidate =
     list_all (\<lambda>(key, val). case map_of candidate key of
                                None \<Rightarrow> False
                              | Some w \<Rightarrow> strict_eq w val)
       (object_entries conditionSet)"

definition spec_satisfied :: "attrs list \<Rightarrow> attrs list \<Rightarrow> bool" where
  "spec_satisfied conditionSets candidates =
     list_ex (\<lambda>conditionSet. list_ex (\<lambda>candidate.
        spec_pairMatches conditionSet candidate) candidates) conditionSets"

text \<open>
  Condition satisfaction of a statement as the specification words it: without conditions
  (absent or empty) the statement is satisfied; with conditions and no candidate map it is
  not; otherwise some condition-set must match some candidate map.
\<close>

definition spec_conditionsSatisfied :: "statement \<Rightarrow> attrs list \<Rightarrow> bool" where
  "spec_conditionsSatisfied stmt candidates =
     (case conditions stmt of
        None \<Rightarrow> True
      | Some conditionSets \<Rightarrow>
          if conditionSets = [] then True
          else if candidates = [] then False
          else spec_satisfied conditionSets candidates)"

text \<open>Resource matching as the specification words it: the statement's resource equals
  the queried resource, or is the literal \<^verbatim>\<open>"*"\<close>.\<close>

definition spec_resourceMatches :: "statement \<Rightarrow> string \<Rightarrow> bool" where
  "spec_resourceMatches stmt res = (resource stmt = res \<or> resource stmt = ''*'')"

text \<open>No entry of the attribute map has the value \<^verbatim>\<open>undefined\<close>.\<close>

definition undefined_free :: "attrs \<Rightarrow> bool" where
  "undefined_free ob = list_all (\<lambda>(key, val). val \<noteq> JUndefined) (object_entries ob)"

text \<open>No condition-set of the statement holds the value \<^verbatim>\<open>undefined\<close>.\<close>

definition undefined_free_conditions :: "statement \<Rightarrow> bool" where
  "undefined_free_conditions stmt =
     (case conditions stmt of None \<Rightarrow> True | Some cs \<Rightarrow> list_all undefined_free cs)"

text \<open>The keys that occur in some condition-set of some statement of a policy.\<close>

definition condition_keys :: "policy \<Rightarrow> string list" where
  "condition_keys P =
     concat (map (\<lambda>stmt. case conditions stmt of
                            None \<Rightarrow> []
                          | Some cs \<Rightarrow> concat (map (map fst) cs)) P)"

text \<open>Two candidate maps agree on a list of keys: reading each key gives the same value
  in both (in particular when the key is present in both with one value, or absent in
  both).\<close>

definition agree_on :: "string list \<Rightarrow> attrs \<Rightarrow> attrs \<Rightarrow> bool" where
  "agree_on ks c1 c2 = list_all (\<lambda>k. obj_get c1 k = obj_get c2 k) ks"

section \<open>Example policies\<close>

text \<open>Statements taken from the repository's tests and its README.\<close>

definition stmt_post_read :: statement where
  "stmt_post_read =
     \<lparr>resource = ''POST'', actions = [''read''], effect = Allow, conditions = None\<rparr>"

definition stmt_post_update_own :: statement where
  "stmt_post_update_own =
     \<lparr>resource = ''POST'', actions = [''update''], effect = Allow,
      conditions = Some [[(''authorId'', JStr ''auth-123'')]]\<rparr>"

definition stmt_post_delete_deny :: statement where
  "stmt_post_delete_deny =
     \<lparr>resource = ''POST'', actions = [''delete''], effect = Deny, conditions = None\<rparr>"

definition stmt_post_any :: statement where
  "stmt_post_any =
     \<lparr>resource = ''POST'', actions = [''*''], effect = Allow,
      conditions = Some [[(''status'', JStr ''published'')],
                         [(''status'', JStr ''draft''), (''role'', JStr ''superadmin'')]]\<rparr>"

definition stmt_post_all_empty_conditions :: statement where
  "stmt_post_all_empty_conditions =
     \<lparr>resource = ''POST'', actions = [''*''], effect = Allow, conditions = Some []\<rparr>"

text \<open>The statement of the README's ADMIN recipe.\<close>

definition stmt_admin :: statement where
  "stmt_admin =
     \<lparr>resource = ''*'', actions = [''*''], effect = Allow, conditions = None\<rparr>"

text \<open>A condition-set built from a value that was never set.\<close>

definition stmt_post_update_unset :: statement where
  "stmt_post_update_unset =
     \<lparr>resource = ''POST'', actions = [''update''], effect = Allow,
      conditions = Some [[(''authorId'', JUndefined)]]\<rparr>"

text \<open>A deny statement for every action, written with \<^verbatim>\<open>"*"\<close> as its resource.\<close>

definition stmt_deny_all :: statement where
  "stmt_deny_all =
     \<lparr>resource = ''*'', actions = [''*''], effect = Deny, conditions = None\<rparr>"

text \<open>A deny statement for locked posts, built from a value that was never set.\<close>

definition stmt_post_update_locked :: statement where
  "stmt_post_update_locked =
     \<lparr>resource = ''POST'', actions = [''update''], effect = Deny,
      conditions = Some [[(''lockedBy'', JUndefined)]]\<rparr>"

lemmas example_defs =
  stmt_post_read_def stmt_post_update_own_def stmt_post_delete_deny_def stmt_post_any_def
  stmt_post_all_empty_conditions_def

lemmas evaluator_defs =
  can_def relevantStatements_def actionMatches_def conditionMatches_def anyMatch_def
  pairMatches_def object_entries_def obj_get_def object_prototype_keys_def
  read_strict_eq_def strict_eq_def

section \<open>The loop as a decision\<close>

text \<open>The loop returns true exactly when no satisfied statement denies and either the
  flag was already set or some satisfied statement allows.\<close>

lemma can_loop_iff:
  "can_loop ss a ics b \<longleftrightarrow>
     (\<forall>s\<in>set ss. satisfied s a ics \<longrightarrow> effect s \<noteq> Deny) \<and>
     (b \<or> (\<exists>s\<in>set ss. satisfied s a ics \<and> effect s = Allow))"
proof (induction ss arbitrary: b)
  case Nil
  show ?case by simp
next
  case (Cons s ss)
  show ?case
  proof (cases "satisfied s a ics")
    case False
    then have "can_loop (s # ss) a ics b = can_loop ss a ics b"
      by (auto simp: satisfied_def)
    with False Cons show ?thesis by auto
  next
    case True
    then have sat: "actionMatches s a" "conditionMatches s ics"
      by (simp_all add: satisfied_def)
    show ?thesis
    proof (cases "effect s")
      case Allow
      with sat have "can_loop (s # ss) a ics b = can_loop ss a ics True" by simp
      with True Allow Cons show ?thesis by auto
    next
      case Deny
      with sat have "\<not> can_loop (s # ss) a ics b" by simp
      with True Deny show ?thesis by auto
    qed
  qed
qed

lemma can_iff:
  "can P r a c \<longleftrightarrow>
     (\<forall>s\<in>set P. resource s = r \<and> satisfied s a (normalize_input c) \<longrightarrow> effect s \<noteq> Deny) \<and>
     (\<exists>s\<in>set P. resource s = r \<and> satisfied s a (normalize_input c) \<and> effect s = Allow)"
  unfolding can_def can_loop_iff relevantStatements_def by auto

lemma conditionMatches_no_conditions:
  "conditions s = None \<or> conditions s = Some [] \<Longrightarrow> conditionMatches s ics"
  by (auto simp: conditionMatches_def)

lemma conditionMatches_no_input:
  "conditions s = Some pcs \<Longrightarrow> pcs \<noteq> [] \<Longrightarrow> \<not> conditionMatches s []"
  by (simp add: conditionMatches_def)

lemma conditionMatches_anyMatch:
  "conditions s = Some pcs \<Longrightarrow> pcs \<noteq> [] \<Longrightarrow> ics \<noteq> [] \<Longrightarrow>
   conditionMatches s ics = anyMatch pcs ics"
  by (simp add: conditionMatches_def)

lemma conditionMatches_update_actions:
  "conditionMatches (s\<lparr>actions := xs\<rparr>) ics = conditionMatches s ics"
  by (simp add: conditionMatches_def)

section \<open>The source's condition check and the specification's reading\<close>

text \<open>A pair that matches in the specification's reading matches in the source.\<close>

lemma spec_pairMatches_imp:
  assumes "spec_pairMatches pc ic"
  shows "pairMatches pc ic"
proof -
  have "read_strict_eq (obj_get ic k) v" if "(k, v) \<in> set (object_entries pc)" for k v
  proof -
    from assms that
    have "case map_of ic k of None \<Rightarrow> False | Some w \<Rightarrow> strict_eq w v"
      by (auto simp: spec_pairMatches_def list_all_iff)
    then show ?thesis
      by (auto simp: obj_get_def read_strict_eq_def split: option.splits)
  qed
  then show ?thesis
    by (auto simp: pairMatches_def list_all_iff)
qed

text \<open>On a condition-set without the value \<^verbatim>\<open>undefined\<close> the two coincide.\<close>

lemma pairMatches_spec:
  assumes "undefined_free pc"
  shows "pairMatches pc ic = spec_pairMatches pc ic"
proof -
  have "read_strict_eq (obj_get ic k) v =
        (case map_of ic k of None \<Rightarrow> False | Some w \<Rightarrow> strict_eq w v)"
    if "(k, v) \<in> set (object_entries pc)" for k v
  proof -
    from assms that have "v \<noteq> JUndefined"
      by (auto simp: undefined_free_def list_all_iff)
    then show ?thesis
      by (auto simp: obj_get_def read_strict_eq_def strict_eq_def split: option.splits)
  qed
  then show ?thesis
    by (auto simp: pairMatches_def spec_pairMatches_def list_all_iff)
qed

lemma anyMatch_spec:
  assumes "list_all undefined_free pcs"
  shows "anyMatch pcs ics = spec_satisfied pcs ics"
  using assms
  by (auto simp: anyMatch_def spec_satisfied_def list_ex_iff list_all_iff pairMatches_spec)

lemma spec_satisfied_imp_anyMatch:
  "spec_satisfied pcs ics \<Longrightarrow> anyMatch pcs ics"
  unfolding anyMatch_def spec_satisfied_def list_ex_iff
  by (blast intro: spec_pairMatches_imp)

lemma spec_conditionsSatisfied_imp:
  "spec_conditionsSatisfied s ics \<Longrightarrow> conditionMatches s ics"
  by (auto simp: spec_conditionsSatisfied_def conditionMatches_def spec_satisfied_imp_anyMatch
      split: option.splits if_splits)

lemma conditionMatches_spec:
  "undefined_free_conditions s \<Longrightarrow>
   conditionMatches s ics = spec_conditionsSatisfied s ics"
  by (auto simp: undefined_free_conditions_def spec_conditionsSatisfied_def
      conditionMatches_def anyMatch_spec split: option.splits)

section \<open>Resource selection\<close>




section \<open>Deny precedence and default deny\<close>

text \<open>
  Claim C2, as stated, fails: a deny statement with resource \<^verbatim>\<open>"*"\<close> and actions
  \<^verbatim>\<open>["*"]\<close>, without conditions, matches the query for \<^verbatim>\<open>("POST", "read")\<close> in the
  specification's reading of resource matching, yet the filter does not select it and the
  allow statement of the policy decides.
\<close>

theorem deny_precedence_counterexample:
  "effect stmt_deny_all = Deny \<and>
   spec_resourceMatches stmt_deny_all ''POST'' \<and>
   actionMatches stmt_deny_all ''read'' \<and>
   spec_conditionsSatisfied stmt_deny_all (normalize_input NoContext) \<and>
   can [stmt_deny_all, stmt_post_read] ''POST'' ''read'' NoContext"
  by (simp add: stmt_deny_all_def example_defs evaluator_defs spec_resourceMatches_def
      spec_conditionsSatisfied_def)

text \<open>
  Claim C2, amended: when a policy contains a deny statement whose resource field equals
  the queried resource, whose actions match the queried action and whose conditions are
  satisfied by the supplied context (in the specification's reading, or by the source's
  check), \<^verbatim>\<open>can\<close> returns false, whatever else the policy contains and wherever the deny
  statement stands in it.
\<close>

theorem deny_precedence:
  assumes "s \<in> set P" and "effect s = Deny" and "resource s = r"
    and "actionMatches s a"
    and "spec_conditionsSatisfied s (normalize_input c) \<or> conditionMatches s (normalize_input c)"
  shows "\<not> can P r a c"
proof -
  from assms(5) have "conditionMatches s (normalize_input c)"
    by (auto dest: spec_conditionsSatisfied_imp)
  with assms(1-4) show ?thesis
    by (auto simp: can_iff satisfied_def)
qed

theorem deny_precedence_witness:
  "can [stmt_post_all_empty_conditions] ''POST'' ''delete'' NoContext \<and>
   \<not> can [stmt_post_all_empty_conditions, stmt_post_delete_deny,
           stmt_post_all_empty_conditions] ''POST'' ''delete'' NoContext"
proof -
  let ?P = "[stmt_post_all_empty_conditions, stmt_post_delete_deny,
             stmt_post_all_empty_conditions]"
  have allow: "can [stmt_post_all_empty_conditions] ''POST'' ''delete'' NoContext"
    by (simp add: example_defs evaluator_defs)
  have "\<not> can ?P ''POST'' ''delete'' NoContext"
  proof (rule deny_precedence [where s = stmt_post_delete_deny])
    show "stmt_post_delete_deny \<in> set ?P" by simp
    show "effect stmt_post_delete_deny = Deny" by (simp add: example_defs)
    show "resource stmt_post_delete_deny = ''POST''" by (simp add: example_defs)
    show "actionMatches stmt_post_delete_deny ''delete''"
      by (simp add: example_defs actionMatches_def)
    show "spec_conditionsSatisfied stmt_post_delete_deny (normalize_input NoContext) \<or>
          conditionMatches stmt_post_delete_deny (normalize_input NoContext)"
      by (simp add: example_defs spec_conditionsSatisfied_def)
  qed
  with allow show ?thesis by simp
qed

text \<open>
  Claim C3, as stated, fails: the only statement of the policy below has the condition-set
  \<^verbatim>\<open>{authorId: undefined}\<close>; the empty candidate map does not hold that key, so the
  statement is not satisfied in the specification's reading, yet \<^verbatim>\<open>can\<close> returns
  true.
\<close>

theorem default_deny_counterexample:
  "\<not> spec_conditionsSatisfied stmt_post_update_unset (normalize_input (OneContext [])) \<and>
   can [stmt_post_update_unset] ''POST'' ''update'' (OneContext [])"
  by (simp add: stmt_post_update_unset_def evaluator_defs spec_conditionsSatisfied_def
      spec_satisfied_def spec_pairMatches_def)

text \<open>
  Claim C3, amended: for a policy none of whose condition-sets holds the value
  \<^verbatim>\<open>undefined\<close>, when no statement is at once selected for the queried resource, matched
  by the queried action and satisfied by the supplied context, \<^verbatim>\<open>can\<close> returns false.
  For every policy, \<^verbatim>\<open>can\<close> returns false on a resource that no statement names and on
  an action that no statement matches, and it returns false on the empty policy. The
  evaluator has no failing branch: it returns a boolean on every input. Selection is by
  equality of the resource field, so the premise asks less than one that would also count
  the statements with resource \<^verbatim>\<open>"*"\<close>.
\<close>

theorem default_deny:
  "((\<forall>s\<in>set P. undefined_free_conditions s) \<and>
    (\<forall>s\<in>set P. \<not> (resource s = r \<and> actionMatches s a \<and>
                    spec_conditionsSatisfied s (normalize_input c))) \<longrightarrow> \<not> can P r a c) \<and>
   ((\<forall>s\<in>set P. resource s \<noteq> r) \<longrightarrow> \<not> can P r a c) \<and>
   ((\<forall>s\<in>set P. \<not> actionMatches s a) \<longrightarrow> \<not> can P r a c) \<and>
   \<not> can [] r a c"
proof (intro conjI impI)
  assume h: "(\<forall>s\<in>set P. undefined_free_conditions s) \<and>
    (\<forall>s\<in>set P. \<not> (resource s = r \<and> actionMatches s a \<and>
                    spec_conditionsSatisfied s (normalize_input c)))"
  then have "\<not> (resource s = r \<and> satisfied s a (normalize_input c))" if "s \<in> set P" for s
    using that by (auto simp: satisfied_def conditionMatches_spec)
  then show "\<not> can P r a c"
    unfolding can_iff by blast
next
  assume "\<forall>s\<in>set P. resource s \<noteq> r"
  then show "\<not> can P r a c"
    by (auto simp: can_iff)
next
  assume "\<forall>s\<in>set P. \<not> actionMatches s a"
  then show "\<not> can P r a c"
    by (auto simp: can_iff satisfied_def)
next
  show "\<not> can [] r a c"
    by (simp add: can_iff)
qed

theorem default_deny_witness:
  "\<not> can [stmt_post_update_own, stmt_post_read] ''POST'' ''update''
       (OneContext [(''authorId'', JStr ''other-user'')]) \<and>
   \<not> can [stmt_post_update_own, stmt_post_read] ''USER'' ''read'' NoContext \<and>
   \<not> can [stmt_post_update_own, stmt_post_read] ''POST'' ''delete'' NoContext \<and>
   can [stmt_post_update_own, stmt_post_read] ''POST'' ''read'' NoContext"
proof -
  let ?P = "[stmt_post_update_own, stmt_post_read]"
  let ?c = "OneContext [(''authorId'', JStr ''other-user'')]"
  have "(\<forall>s\<in>set ?P. undefined_free_conditions s) \<and>
        (\<forall>s\<in>set ?P. \<not> (resource s = ''POST'' \<and> actionMatches s ''update'' \<and>
                        spec_conditionsSatisfied s (normalize_input ?c)))"
    by (simp add: example_defs actionMatches_def undefined_free_conditions_def
        undefined_free_def object_entries_def spec_conditionsSatisfied_def
        spec_satisfied_def spec_pairMatches_def strict_eq_def)
  with default_deny [of ?P "''POST''" "''update''" ?c]
  have 1: "\<not> can ?P ''POST'' ''update'' ?c" by blast
  have "\<forall>s\<in>set ?P. resource s \<noteq> ''USER''"
    by (simp add: example_defs)
  with default_deny [of ?P "''USER''" "''read''" NoContext]
  have 2: "\<not> can ?P ''USER'' ''read'' NoContext" by blast
  have "\<forall>s\<in>set ?P. \<not> actionMatches s ''delete''"
    by (simp add: example_defs actionMatches_def)
  with default_deny [of ?P "''POST''" "''delete''" NoContext]
  have 3: "\<not> can ?P ''POST'' ''delete'' NoContext" by blast
  have 4: "can ?P ''POST'' ''read'' NoContext"
    by (simp add: example_defs evaluator_defs)
  from 1 2 3 4 show ?thesis by simp
qed

section \<open>Conditions\<close>

text \<open>
  Claim C4, as stated, fails on a condition-set that holds the value \<^verbatim>\<open>undefined\<close>: the
  source compares \<^verbatim>\<open>inputCondition[key] === value\<close>, and reading an absent key gives
  \<^verbatim>\<open>undefined\<close>. The condition-set \<^verbatim>\<open>{authorId: undefined}\<close> is matched by the empty
  candidate map, in which the key is not present.
\<close>

theorem condition_satisfaction_counterexample:
  "conditions stmt_post_update_unset = Some [[(''authorId'', JUndefined)]] \<and>
   conditionMatches stmt_post_update_unset (normalize_input (OneContext [])) \<and>
   \<not> spec_satisfied [[(''authorId'', JUndefined)]] (normalize_input (OneContext []))"
  by (simp add: stmt_post_update_unset_def evaluator_defs spec_satisfied_def
      spec_pairMatches_def)

text \<open>
  Claim C4, amended: for a statement with a non-empty conditions list none of whose
  condition-sets holds the value \<^verbatim>\<open>undefined\<close>, and a non-empty normalized context
  sequence, the statement's conditions are satisfied if and only if some condition-set of
  the statement and some candidate map of the input are such that every key of the
  condition-set is present in the candidate map with a strictly equal value.
\<close>

theorem condition_satisfaction:
  assumes "conditions s = Some pcs" and "pcs \<noteq> []" and "ics \<noteq> []"
    and "list_all undefined_free pcs"
  shows "conditionMatches s ics = spec_satisfied pcs ics"
  using assms by (simp add: conditionMatches_anyMatch anyMatch_spec)

theorem condition_satisfaction_witness:
  "conditionMatches stmt_post_any
     [[(''status'', JStr ''draft''), (''role'', JStr ''superadmin'')]] \<and>
   spec_satisfied [[(''status'', JStr ''published'')],
                   [(''status'', JStr ''draft''), (''role'', JStr ''superadmin'')]]
     [[(''status'', JStr ''draft''), (''role'', JStr ''superadmin'')]] \<and>
   \<not> conditionMatches stmt_post_any [[(''status'', JStr ''draft''), (''role'', JStr ''user'')]]"
proof -
  let ?pcs = "[[(''status'', JStr ''published'')],
               [(''status'', JStr ''draft''), (''role'', JStr ''superadmin'')]]"
  have c: "conditions stmt_post_any = Some ?pcs"
    by (simp add: stmt_post_any_def)
  have u: "list_all undefined_free ?pcs"
    by (simp add: undefined_free_def object_entries_def)
  have 1: "conditionMatches stmt_post_any ics = spec_satisfied ?pcs ics" if "ics \<noteq> []" for ics
    using condition_satisfaction [OF c _ that u] by simp
  show ?thesis
    unfolding 1 [of "[[(''status'', JStr ''draft''), (''role'', JStr ''superadmin'')]]", simplified]
      1 [of "[[(''status'', JStr ''draft''), (''role'', JStr ''user'')]]", simplified]
    by (simp add: spec_satisfied_def spec_pairMatches_def object_entries_def strict_eq_def)
qed

text \<open>
  Claim C5: a statement whose conditions list is non-empty is never satisfied by a query
  without context (no third argument, or an empty array of candidate maps); hence a policy
  all of whose statements carry a non-empty conditions list, allow statements in
  particular, denies every query without context.
\<close>

theorem missing_context:
  assumes "c = NoContext \<or> c = ManyContexts []"
  shows "(conditions s = Some pcs \<and> pcs \<noteq> [] \<longrightarrow> \<not> conditionMatches s (normalize_input c)) \<and>
         ((\<forall>s\<in>set P. \<exists>pcs. conditions s = Some pcs \<and> pcs \<noteq> []) \<longrightarrow> \<not> can P r a c)"
proof -
  from assms have empty: "normalize_input c = []" by auto
  have one: "\<not> conditionMatches s' []" if "conditions s' = Some pcs'" and "pcs' \<noteq> []"
    for s' pcs'
    using that by (rule conditionMatches_no_input)
  from one have "\<not> can P r a c"
    if "\<forall>s\<in>set P. \<exists>pcs. conditions s = Some pcs \<and> pcs \<noteq> []"
    using that unfolding can_iff empty satisfied_def by blast
  with one [of s pcs] empty show ?thesis by simp
qed

theorem missing_context_witness:
  "\<not> conditionMatches stmt_post_update_own (normalize_input NoContext) \<and>
   \<not> conditionMatches stmt_post_update_own (normalize_input (ManyContexts [])) \<and>
   \<not> can [stmt_post_update_own, stmt_post_any] ''POST'' ''update'' NoContext \<and>
   \<not> can [stmt_post_update_own, stmt_post_any] ''POST'' ''update'' (ManyContexts []) \<and>
   can [stmt_post_update_own, stmt_post_any] ''POST'' ''update''
     (OneContext [(''authorId'', JStr ''auth-123'')])"
proof -
  let ?P = "[stmt_post_update_own, stmt_post_any]"
  have own: "conditions stmt_post_update_own = Some [[(''authorId'', JStr ''auth-123'')]] \<and>
             [[(''authorId'', JStr ''auth-123'')]] \<noteq> []"
    by (simp add: example_defs)
  have all: "\<forall>s\<in>set ?P. \<exists>pcs. conditions s = Some pcs \<and> pcs \<noteq> []"
    by (simp add: example_defs)
  have ok: "can ?P ''POST'' ''update'' (OneContext [(''authorId'', JStr ''auth-123'')])"
    by (simp add: example_defs evaluator_defs)
  from missing_context [where c = NoContext and s = stmt_post_update_own
      and pcs = "[[(''authorId'', JStr ''auth-123'')]]" and P = ?P
      and r = "''POST''" and a = "''update''"]
    missing_context [where c = "ManyContexts []" and s = stmt_post_update_own
      and pcs = "[[(''authorId'', JStr ''auth-123'')]]" and P = ?P
      and r = "''POST''" and a = "''update''"]
    own all ok
  show ?thesis by blast
qed

text \<open>
  Claim C8, as stated, fails in two ways. The README's ADMIN statement is an allow
  statement without conditions whose resource \<^verbatim>\<open>"*"\<close> matches \<^verbatim>\<open>"POST"\<close> in the
  specification's reading and whose actions match; the policy has no deny statement, yet
  \<^verbatim>\<open>can\<close> returns false. And next to an unconditional allow statement for
  \<^verbatim>\<open>"POST"\<close>, a deny statement with the condition-set \<^verbatim>\<open>{lockedBy: undefined}\<close> is not
  satisfied by the empty candidate map in the specification's reading, yet \<^verbatim>\<open>can\<close>
  returns false.
\<close>

theorem unconditional_statement_counterexample:
  "effect stmt_admin = Allow \<and> conditions stmt_admin = None \<and>
   spec_resourceMatches stmt_admin ''POST'' \<and> actionMatches stmt_admin ''read'' \<and>
   \<not> can [stmt_admin] ''POST'' ''read'' NoContext \<and>
   effect stmt_post_all_empty_conditions = Allow \<and>
   conditions stmt_post_all_empty_conditions = Some [] \<and>
   resource stmt_post_all_empty_conditions = ''POST'' \<and>
   actionMatches stmt_post_all_empty_conditions ''update'' \<and>
   \<not> spec_conditionsSatisfied stmt_post_update_locked (normalize_input (OneContext [])) \<and>
   \<not> can [stmt_post_all_empty_conditions, stmt_post_update_locked] ''POST'' ''update''
       (OneContext [])"
  by (simp add: stmt_admin_def stmt_post_update_locked_def example_defs evaluator_defs
      spec_resourceMatches_def spec_conditionsSatisfied_def spec_satisfied_def
      spec_pairMatches_def)

text \<open>
  Claim C8, amended: a statement whose conditions field is absent, or is the empty list,
  has its condition check satisfied by every context, the absent one included. An allow
  statement without conditions whose resource field equals the queried resource and whose
  actions match makes \<^verbatim>\<open>can\<close> return true, provided that no deny statement of the policy
  holds the value \<^verbatim>\<open>undefined\<close> in a condition-set and that no deny statement with that
  resource and a matching action is satisfied. Only deny statements with exactly that
  resource need to be unsatisfied; one with resource \<^verbatim>\<open>"*"\<close> is not selected.
\<close>

theorem unconditional_statement:
  "(conditions s = None \<or> conditions s = Some [] \<longrightarrow> conditionMatches s ics) \<and>
   (s \<in> set P \<and> effect s = Allow \<and> (conditions s = None \<or> conditions s = Some []) \<and>
    resource s = r \<and> actionMatches s a \<and>
    (\<forall>d\<in>set P. effect d = Deny \<longrightarrow> undefined_free_conditions d) \<and>
    (\<forall>d\<in>set P. effect d = Deny \<and> resource d = r \<and> actionMatches d a
        \<longrightarrow> \<not> spec_conditionsSatisfied d (normalize_input c))
      \<longrightarrow> can P r a c)"
proof (intro conjI impI)
  assume "conditions s = None \<or> conditions s = Some []"
  then show "conditionMatches s ics"
    by (rule conditionMatches_no_conditions)
next
  assume h: "s \<in> set P \<and> effect s = Allow \<and> (conditions s = None \<or> conditions s = Some []) \<and>
    resource s = r \<and> actionMatches s a \<and>
    (\<forall>d\<in>set P. effect d = Deny \<longrightarrow> undefined_free_conditions d) \<and>
    (\<forall>d\<in>set P. effect d = Deny \<and> resource d = r \<and> actionMatches d a
        \<longrightarrow> \<not> spec_conditionsSatisfied d (normalize_input c))"
  then have allow: "satisfied s a (normalize_input c)"
    by (simp add: satisfied_def conditionMatches_no_conditions)
  have "effect d \<noteq> Deny"
    if "d \<in> set P" and "resource d = r" and "satisfied d a (normalize_input c)" for d
  proof
    assume deny: "effect d = Deny"
    with h that(1) have "undefined_free_conditions d" by blast
    then have "conditionMatches d (normalize_input c)
        = spec_conditionsSatisfied d (normalize_input c)"
      by (rule conditionMatches_spec)
    with h that deny show False
      by (auto simp: satisfied_def)
  qed
  with h allow show "can P r a c"
    unfolding can_iff by blast
qed

theorem unconditional_statement_witness:
  "conditionMatches stmt_post_read [] \<and>
   conditionMatches stmt_post_all_empty_conditions [[(''someContext'', JStr ''value'')]] \<and>
   can [stmt_post_delete_deny, stmt_post_read] ''POST'' ''read'' NoContext \<and>
   can [stmt_post_delete_deny, stmt_post_read] ''POST'' ''read''
     (OneContext [(''someContext'', JStr ''value'')])"
proof -
  let ?P = "[stmt_post_delete_deny, stmt_post_read]"
  have absent: "conditions stmt_post_read = None"
    and empty: "conditions stmt_post_all_empty_conditions = Some []"
    by (simp_all add: example_defs)
  have pre: "stmt_post_read \<in> set ?P \<and> effect stmt_post_read = Allow \<and>
      (conditions stmt_post_read = None \<or> conditions stmt_post_read = Some []) \<and>
      resource stmt_post_read = ''POST'' \<and> actionMatches stmt_post_read ''read'' \<and>
      (\<forall>d\<in>set ?P. effect d = Deny \<longrightarrow> undefined_free_conditions d) \<and>
      (\<forall>d\<in>set ?P. effect d = Deny \<and> resource d = ''POST'' \<and> actionMatches d ''read''
          \<longrightarrow> \<not> spec_conditionsSatisfied d (normalize_input c))" for c
    by (simp add: example_defs actionMatches_def undefined_free_conditions_def)
  from unconditional_statement [where s = stmt_post_read and ics = "[]"] absent
  have 1: "conditionMatches stmt_post_read []" by blast
  from unconditional_statement [where s = stmt_post_all_empty_conditions
      and ics = "[[(''someContext'', JStr ''value'')]]"] empty
  have 2: "conditionMatches stmt_post_all_empty_conditions [[(''someContext'', JStr ''value'')]]"
    by blast
  from unconditional_statement [where s = stmt_post_read and P = ?P and r = "''POST''"
      and a = "''read''" and c = NoContext] pre [of NoContext]
  have 3: "can ?P ''POST'' ''read'' NoContext" by blast
  from unconditional_statement [where s = stmt_post_read and P = ?P and r = "''POST''"
      and a = "''read''" and c = "OneContext [(''someContext'', JStr ''value'')]"]
    pre [of "OneContext [(''someContext'', JStr ''value'')]"]
  have 4: "can ?P ''POST'' ''read'' (OneContext [(''someContext'', JStr ''value'')])" by blast
  from 1 2 3 4 show ?thesis by simp
qed

section \<open>Actions\<close>

text \<open>
  Claim C7: a statement whose actions contain \<^verbatim>\<open>"*"\<close> matches every queried action, and
  in a policy it decides as the same statement with the queried action as its only action
  would; a statement whose actions contain neither the queried action nor \<^verbatim>\<open>"*"\<close> does
  not match and is skipped: the decision is the one of the policy without it.
\<close>

theorem wildcard_action:
  "(''*'' \<in> set (actions s) \<longrightarrow> actionMatches s a) \<and>
   (''*'' \<in> set (actions s) \<longrightarrow>
      can (P1 @ s # P2) r a c = can (P1 @ s\<lparr>actions := [a]\<rparr> # P2) r a c) \<and>
   (''*'' \<notin> set (actions s) \<and> a \<notin> set (actions s) \<longrightarrow>
      \<not> actionMatches s a \<and> can (P1 @ s # P2) r a c = can (P1 @ P2) r a c)"
  by (auto simp: can_iff satisfied_def actionMatches_def conditionMatches_update_actions)

theorem wildcard_action_witness:
  "actionMatches stmt_post_all_empty_conditions ''delete'' \<and>
   can ([] @ stmt_post_all_empty_conditions # []) ''POST'' ''delete'' NoContext \<and>
   \<not> actionMatches stmt_post_read ''delete'' \<and>
   \<not> can ([] @ stmt_post_read # []) ''POST'' ''delete'' NoContext"
proof -
  have star: "''*'' \<in> set (actions stmt_post_all_empty_conditions)"
    by (simp add: example_defs)
  have none: "''*'' \<notin> set (actions stmt_post_read) \<and> ''delete'' \<notin> set (actions stmt_post_read)"
    by (simp add: example_defs)
  have exact: "can ([] @ stmt_post_all_empty_conditions\<lparr>actions := [''delete'']\<rparr> # [])
      ''POST'' ''delete'' NoContext"
    by (simp add: example_defs evaluator_defs)
  have bare: "\<not> can ([] @ []) ''POST'' ''delete'' NoContext"
    by (simp add: evaluator_defs)
  from wildcard_action [where s = stmt_post_all_empty_conditions and a = "''delete''"
      and ?P1.0 = "[]" and ?P2.0 = "[]" and r = "''POST''" and c = NoContext] star exact
  have 1: "actionMatches stmt_post_all_empty_conditions ''delete'' \<and>
      can ([] @ stmt_post_all_empty_conditions # []) ''POST'' ''delete'' NoContext"
    by blast
  from wildcard_action [where s = stmt_post_read and a = "''delete''"
      and ?P1.0 = "[]" and ?P2.0 = "[]" and r = "''POST''" and c = NoContext] none bare
  have 2: "\<not> actionMatches stmt_post_read ''delete'' \<and>
      \<not> can ([] @ stmt_post_read # []) ''POST'' ''delete'' NoContext"
    by simp
  from 1 2 show ?thesis by simp
qed

section \<open>Lists of actions\<close>

text \<open>
  Claim C6: for every policy, resource, list of actions and context, \<^verbatim>\<open>canAll\<close> is true
  if and only if \<^verbatim>\<open>can\<close> is true for every action of the list (so it is true for the
  empty list), and \<^verbatim>\<open>canAny\<close> is true if and only if \<^verbatim>\<open>can\<close> is true for at least one
  action of the list (so it is false for the empty list).
\<close>

theorem canAll_canAny_consistent:
  "(canAll P r acts c \<longleftrightarrow> (\<forall>a\<in>set acts. can P r a c)) \<and>
   (canAny P r acts c \<longleftrightarrow> (\<exists>a\<in>set acts. can P r a c)) \<and>
   canAll P r [] c \<and> \<not> canAny P r [] c"
  by (simp add: canAll_def canAny_def list_all_iff list_ex_iff)

theorem canAll_canAny_consistent_witness:
  "canAll [stmt_post_read, stmt_post_delete_deny] ''POST'' [''read''] NoContext \<and>
   \<not> canAll [stmt_post_read, stmt_post_delete_deny] ''POST'' [''read'', ''delete''] NoContext \<and>
   canAny [stmt_post_read, stmt_post_delete_deny] ''POST'' [''read'', ''delete''] NoContext \<and>
   \<not> canAny [stmt_post_read, stmt_post_delete_deny] ''POST'' [''delete''] NoContext"
proof -
  let ?P = "[stmt_post_read, stmt_post_delete_deny]"
  have rd: "can ?P ''POST'' ''read'' NoContext"
    by (simp add: example_defs evaluator_defs)
  have dl: "\<not> can ?P ''POST'' ''delete'' NoContext"
    by (simp add: example_defs evaluator_defs)
  from rd dl show ?thesis
    unfolding canAll_canAny_consistent [THEN conjunct1]
      canAll_canAny_consistent [THEN conjunct2, THEN conjunct1]
    by simp
qed

section \<open>Order of the statements\<close>

text \<open>
  Claim C9: the decision does not depend on the order of the statements: for a policy
  \<open>P\<close> and any permutation \<open>P'\<close> of its statements, \<^verbatim>\<open>can\<close> returns the same boolean on
  \<open>P'\<close> as on \<open>P\<close>, for every resource, action and context.
\<close>

theorem can_order_irrelevant:
  assumes "mset P' = mset P"
  shows "can P' r a c = can P r a c"
proof -
  from assms have "set P' = set P"
    by (rule mset_eq_setD)
  then show ?thesis
    by (simp add: can_iff)
qed

theorem can_order_irrelevant_witness:
  "\<not> can [stmt_post_all_empty_conditions, stmt_post_delete_deny] ''POST'' ''delete'' NoContext \<and>
   \<not> can [stmt_post_delete_deny, stmt_post_all_empty_conditions] ''POST'' ''delete'' NoContext \<and>
   can [stmt_post_all_empty_conditions, stmt_post_delete_deny] ''POST'' ''read'' NoContext \<and>
   can [stmt_post_delete_deny, stmt_post_all_empty_conditions] ''POST'' ''read'' NoContext"
proof -
  let ?P = "[stmt_post_all_empty_conditions, stmt_post_delete_deny]"
  let ?P' = "[stmt_post_delete_deny, stmt_post_all_empty_conditions]"
  have perm: "mset ?P' = mset ?P"
    by (simp add: add_mset_commute)
  have 1: "\<not> can ?P ''POST'' ''delete'' NoContext"
    by (simp add: example_defs evaluator_defs)
  have 2: "can ?P ''POST'' ''read'' NoContext"
    by (simp add: example_defs evaluator_defs)
  from 1 2 show ?thesis
    by (simp add: can_order_irrelevant [OF perm])
qed

section \<open>Context keys that no condition names\<close>

lemma pairMatches_agree:
  assumes "agree_on ks ic1 ic2" and "set (map fst pc) \<subseteq> set ks"
  shows "pairMatches pc ic1 = pairMatches pc ic2"
proof -
  have "obj_get ic1 k = obj_get ic2 k" if "(k, v) \<in> set (object_entries pc)" for k v
  proof -
    from that have "k \<in> set (map fst (AList.clearjunk pc))"
      by (force simp: object_entries_def)
    then have "k \<in> set ks"
      using assms(2) by (simp only: clearjunk_keys_set) auto
    with assms(1) show ?thesis
      by (simp add: agree_on_def list_all_iff)
  qed
  then show ?thesis
    by (auto simp: pairMatches_def list_all_iff)
qed

lemma list_ex_rel:
  assumes "list_all2 R xs ys" and "\<And>x y. R x y \<Longrightarrow> f x = f y"
  shows "list_ex f xs = list_ex f ys"
  using assms by (induction rule: list_all2_induct) simp_all

lemma anyMatch_agree:
  assumes "list_all2 (agree_on ks) ics1 ics2"
    and "\<And>pc. pc \<in> set pcs \<Longrightarrow> set (map fst pc) \<subseteq> set ks"
  shows "anyMatch pcs ics1 = anyMatch pcs ics2"
proof -
  have "list_ex (pairMatches pc) ics1 = list_ex (pairMatches pc) ics2"
    if "pc \<in> set pcs" for pc
    using assms(1)
    by (rule list_ex_rel) (rule pairMatches_agree, assumption, rule assms(2) [OF that])
  then show ?thesis
    by (simp add: anyMatch_def list_ex_iff [of _ pcs])
qed

lemma condition_keys_covers:
  "s \<in> set P \<Longrightarrow> conditions s = Some pcs \<Longrightarrow> pc \<in> set pcs \<Longrightarrow>
   set (map fst pc) \<subseteq> set (condition_keys P)"
  by (force simp: condition_keys_def)

lemma conditionMatches_agree:
  assumes "s \<in> set P" and "list_all2 (agree_on (condition_keys P)) ics1 ics2"
  shows "conditionMatches s ics1 = conditionMatches s ics2"
proof (cases "conditions s")
  case None
  then show ?thesis by (simp add: conditionMatches_def)
next
  case (Some pcs)
  from assms(2) have len: "length ics1 = length ics2"
    by (rule list_all2_lengthD)
  have "anyMatch pcs ics1 = anyMatch pcs ics2"
    using assms(2) by (rule anyMatch_agree) (rule condition_keys_covers [OF assms(1) Some])
  with Some len show ?thesis
    by (simp add: conditionMatches_def)
qed

lemma can_agree:
  assumes "list_all2 (agree_on (condition_keys P)) (normalize_input c1) (normalize_input c2)"
  shows "can P r a c1 = can P r a c2"
proof -
  have "satisfied s a (normalize_input c1) = satisfied s a (normalize_input c2)"
    if "s \<in> set P" for s
    using conditionMatches_agree [OF that assms] by (simp add: satisfied_def)
  then show ?thesis
    unfolding can_iff by blast
qed

text \<open>
  Claim C10: when two context inputs normalize to sequences of candidate maps of the same
  length that agree, position by position, on every key occurring in some condition-set of
  some statement of the policy (they may differ on all other keys), \<^verbatim>\<open>can\<close>,
  \<^verbatim>\<open>canAll\<close> and \<^verbatim>\<open>canAny\<close> return equal results on the two inputs.
\<close>

theorem context_noninterference:
  assumes "list_all2 (agree_on (condition_keys P)) (normalize_input c1) (normalize_input c2)"
  shows "can P r a c1 = can P r a c2 \<and>
         canAll P r acts c1 = canAll P r acts c2 \<and>
         canAny P r acts c1 = canAny P r acts c2"
  using assms by (simp add: canAll_def canAny_def can_agree)

theorem context_noninterference_witness:
  "can [stmt_post_update_own] ''POST'' ''update''
     (OneContext [(''authorId'', JStr ''auth-123''), (''visitor'', JBool True)]) \<and>
   can [stmt_post_update_own] ''POST'' ''update''
     (ManyContexts [[(''authorId'', JStr ''auth-123'')]]) \<and>
   canAll [stmt_post_update_own] ''POST'' [''update'']
     (OneContext [(''authorId'', JStr ''auth-123''), (''visitor'', JBool True)]) \<and>
   canAny [stmt_post_update_own] ''POST'' [''read'', ''update'']
     (OneContext [(''authorId'', JStr ''auth-123''), (''visitor'', JBool True)])"
proof -
  let ?c1 = "OneContext [(''authorId'', JStr ''auth-123''), (''visitor'', JBool True)]"
  let ?c2 = "ManyContexts [[(''authorId'', JStr ''auth-123'')]]"
  have agree: "list_all2 (agree_on (condition_keys [stmt_post_update_own]))
                 (normalize_input ?c1) (normalize_input ?c2)"
    by (simp add: condition_keys_def agree_on_def obj_get_def object_prototype_keys_def
        stmt_post_update_own_def)
  have c2: "can [stmt_post_update_own] ''POST'' ''update'' ?c2"
    by (simp add: example_defs evaluator_defs)
  have all2: "canAll [stmt_post_update_own] ''POST'' [''update''] ?c2"
    by (simp add: canAll_def example_defs evaluator_defs)
  have any2: "canAny [stmt_post_update_own] ''POST'' [''read'', ''update''] ?c2"
    by (simp add: canAny_def example_defs evaluator_defs)
  from context_noninterference [OF agree, of "''POST''" "''update''" "[''update'']"]
    context_noninterference [OF agree, of "''POST''" "''update''" "[''read'', ''update'']"]
    c2 all2 any2
  show ?thesis by simp
qed

end
